theory Spec2Isabelle
  imports Complex_Main
begin

section \<open>Numbers\<close>

text \<open>
  The program is TypeScript; every number is an IEEE double. The model uses
  \<^item> \<open>int\<close> for the quantities that are integers in every run (the generator state, block
    coordinates of an integer canvas, recursion depths, millisecond timestamps): all of them
    stay far below \<open>2^53\<close>, where double arithmetic on integers is exact;
  \<^item> \<open>real\<close>, with exact arithmetic, for the fractions (the generator's output
    \<open>state / 233280\<close>, the colour chance, the clock offset).
  Rounding of doubles is not modelled.

  The remainder operator \<open>%\<close> of JavaScript truncates: the result has the sign of the
  dividend.
\<close>

definition js_rem :: "int \<Rightarrow> int \<Rightarrow> int" where
  "js_rem a b = sgn a * (\<bar>a\<bar> mod \<bar>b\<bar>)"

section \<open>The seeded generator (shared/seededRandom.ts)\<close>

text \<open>
  The class has one private field, \<open>seed\<close>. The field \<open>draws\<close> is a ghost field: it is
  not in the source and no modelled function reads it; it counts the calls of \<open>next()\<close>
  on the object, so that statements about the number of draws can be written.
\<close>

record SeededRandom =
  seed :: int
  draws :: nat

definition new_SeededRandom :: "int \<Rightarrow> SeededRandom" where
  "new_SeededRandom s =
     (let s0 = js_rem s 233280
      in \<lparr>seed = (if s0 \<le> 0 then s0 + 233280 else s0), draws = 0\<rparr>)"

definition rng_next :: "SeededRandom \<Rightarrow> real \<times> SeededRandom" where
  "rng_next rng =
     (let s = js_rem (seed rng * 9301 + 49297) 233280
      in (of_int s / 233280, rng\<lparr>seed := s, draws := Suc (draws rng)\<rparr>))"

definition nextInt :: "int \<Rightarrow> int \<Rightarrow> SeededRandom \<Rightarrow> int \<times> SeededRandom" where
  "nextInt lo hi rng =
     (let (r, rng') = rng_next rng
      in (\<lfloor>r * of_int (hi - lo + 1)\<rfloor> + lo, rng'))"

definition nextFloat :: "real \<Rightarrow> real \<Rightarrow> SeededRandom \<Rightarrow> real \<times> SeededRandom" where
  "nextFloat lo hi rng =
     (let (r, rng') = rng_next rng
      in (r * (hi - lo) + lo, rng'))"

definition getSeed :: "SeededRandom \<Rightarrow> int" where
  "getSeed rng = seed rng"

section \<open>The partitioner (shared generation module)\<close>

record Block =
  x :: int
  y :: int
  width :: int
  height :: int

definition MIN_BLOCK_SIZE :: int where
  "MIN_BLOCK_SIZE = 150"

text \<open>
  \<open>generateBlocks\<close> mutates the generator it is given; the model returns the generator
  after the call beside the block list. The condition
  \<open>(w < MIN && h < MIN) || (rng.next() < 0.2 && depth > 0)\<close> evaluates left to right and
  short-circuits: \<open>rng.next()\<close> runs exactly when the first disjunct is false, and before
  \<open>depth > 0\<close> is looked at.
\<close>

function generateBlocks ::
  "Block \<Rightarrow> int \<Rightarrow> int \<Rightarrow> SeededRandom \<Rightarrow> Block list \<times> SeededRandom" where
  "generateBlocks block depth maxDepth rng =
     (if depth \<ge> maxDepth then ([block], rng)
      else if width block < MIN_BLOCK_SIZE \<and> height block < MIN_BLOCK_SIZE then ([block], rng)
      else
        let (r0, rng1) = rng_next rng in
        if r0 < 0.2 \<and> depth > 0 then ([block], rng1)
        else
          let splitHorizontally = height block > width block;
              splitVertically = width block > height block
          in
          if splitHorizontally \<and> height block > MIN_BLOCK_SIZE then
            let (r1, rng2) = rng_next rng1;
                splitPoint = \<lfloor>of_int (y block) + of_int (height block) * (r1 * 0.4 + 0.3)\<rfloor>;
                blockA = \<lparr>x = x block, y = y block,
                          width = width block, height = splitPoint - y block\<rparr>;
                blockB = \<lparr>x = x block, y = splitPoint,
                          width = width block, height = y block + height block - splitPoint\<rparr>;
                (blocksA, rng3) = generateBlocks blockA (depth + 1) maxDepth rng2;
                (blocksB, rng4) = generateBlocks blockB (depth + 1) maxDepth rng3
            in (blocksA @ blocksB, rng4)
          else if splitVertically \<and> width block > MIN_BLOCK_SIZE then
            let (r1, rng2) = rng_next rng1;
                splitPoint = \<lfloor>of_int (x block) + of_int (width block) * (r1 * 0.4 + 0.3)\<rfloor>;
                blockA = \<lparr>x = x block, y = y block,
                          width = splitPoint - x block, height = height block\<rparr>;
                blockB = \<lparr>x = splitPoint, y = y block,
                          width = x block + width block - splitPoint, height = height block\<rparr>;
                (blocksA, rng3) = generateBlocks blockA (depth + 1) maxDepth rng2;
                (blocksB, rng4) = generateBlocks blockB (depth + 1) maxDepth rng3
            in (blocksA @ blocksB, rng4)
          else ([block], rng1))"
  by pat_completeness auto
termination
  by (relation "measure (\<lambda>(block, depth, maxDepth, rng). nat (maxDepth - depth))") auto

declare generateBlocks.simps [simp del]

text \<open>
  Lines 36 to 86 of the function, the part after the two stop checks, as a definition of
  its own (it calls \<open>generateBlocks\<close> for the two halves). It lets the lemmas below speak
  about the function after the stop check. A block that is an exact square, or whose longer
  side is not above the minimum, falls to the last branch and is returned whole.
\<close>

definition subdivide ::
  "Block \<Rightarrow> int \<Rightarrow> int \<Rightarrow> SeededRandom \<Rightarrow> Block list \<times> SeededRandom" where
  "subdivide block depth maxDepth rng1 =
     (let splitHorizontally = height block > width block;
          splitVertically = width block > height block
      in
      if splitHorizontally \<and> height block > MIN_BLOCK_SIZE then
        let (r1, rng2) = rng_next rng1;
            splitPoint = \<lfloor>of_int (y block) + of_int (height block) * (r1 * 0.4 + 0.3)\<rfloor>;
            blockA = \<lparr>x = x block, y = y block,
                      width = width block, height = splitPoint - y block\<rparr>;
            blockB = \<lparr>x = x block, y = splitPoint,
                      width = width block, height = y block + height block - splitPoint\<rparr>;
            (blocksA, rng3) = generateBlocks blockA (depth + 1) maxDepth rng2;
            (blocksB, rng4) = generateBlocks blockB (depth + 1) maxDepth rng3
        in (blocksA @ blocksB, rng4)
      else if splitVertically \<and> width block > MIN_BLOCK_SIZE then
        let (r1, rng2) = rng_next rng1;
            splitPoint = \<lfloor>of_int (x block) + of_int (width block) * (r1 * 0.4 + 0.3)\<rfloor>;
            blockA = \<lparr>x = x block, y = y block,
                      width = splitPoint - x block, height = height block\<rparr>;
            blockB = \<lparr>x = splitPoint, y = y block,
                      width = x block + width block - splitPoint, height = height block\<rparr>;
            (blocksA, rng3) = generateBlocks blockA (depth + 1) maxDepth rng2;
            (blocksB, rng4) = generateBlocks blockB (depth + 1) maxDepth rng3
        in (blocksA @ blocksB, rng4)
      else ([block], rng1))"

text \<open>
  The states a generator object can be in: the constructor leaves \<open>0 < seed \<le> 233280\<close>
  for every integer seed, and \<open>next()\<close> leaves \<open>0 \<le> seed < 233280\<close>. The field is
  private, so no other state occurs.
\<close>

definition rng_ok :: "SeededRandom \<Rightarrow> bool" where
  "rng_ok rng \<longleftrightarrow> 0 \<le> seed rng \<and> seed rng \<le> 233280"

text \<open>\<open>advance n rng\<close> is the generator after \<open>n\<close> further calls of \<open>next()\<close>.\<close>

definition advance :: "nat \<Rightarrow> SeededRandom \<Rightarrow> SeededRandom" where
  "advance n rng = ((\<lambda>g. snd (rng_next g)) ^^ n) rng"

subsection \<open>Geometry of a block list\<close>

text \<open>
  The points of the plane a block covers, as a half-open rectangle; a block of width or
  height \<open>\<le> 0\<close> covers nothing.
\<close>

definition region :: "Block \<Rightarrow> (real \<times> real) set" where
  "region b = {(p, q). of_int (x b) \<le> p \<and> p < of_int (x b + width b) \<and>
                       of_int (y b) \<le> q \<and> q < of_int (y b + height b)}"

definition non_overlapping :: "Block list \<Rightarrow> bool" where
  "non_overlapping bs \<longleftrightarrow>
     (\<forall>i < length bs. \<forall>j < length bs. i \<noteq> j \<longrightarrow> region (bs ! i) \<inter> region (bs ! j) = {})"

definition tiles :: "Block list \<Rightarrow> Block \<Rightarrow> bool" where
  "tiles bs rect \<longleftrightarrow> (\<Union>b \<in> set bs. region b) = region rect \<and> non_overlapping bs"

subsection \<open>The partitioner with the depth of every returned block\<close>

text \<open>
  An instrumented copy of \<open>generateBlocks\<close>: the same function, except that each returned
  block is paired with the \<open>depth\<close> argument of the call that returned it, which is the
  number of splits between the root call and that block plus the depth of the root call.
  Lemma \<open>generateBlocks_depths_erase\<close> shows that the copy computes the blocks and the
  generator of \<open>generateBlocks\<close>.
\<close>

function generateBlocks_depths ::
  "Block \<Rightarrow> int \<Rightarrow> int \<Rightarrow> SeededRandom \<Rightarrow> (Block \<times> int) list \<times> SeededRandom" where
  "generateBlocks_depths block depth maxDepth rng =
     (if depth \<ge> maxDepth then ([(block, depth)], rng)
      else if width block < MIN_BLOCK_SIZE \<and> height block < MIN_BLOCK_SIZE
        then ([(block, depth)], rng)
      else
        let (r0, rng1) = rng_next rng in
        if r0 < 0.2 \<and> depth > 0 then ([(block, depth)], rng1)
        else
          let splitHorizontally = height block > width block;
              splitVertically = width block > height block
          in
          if splitHorizontally \<and> height block > MIN_BLOCK_SIZE then
            let (r1, rng2) = rng_next rng1;
                splitPoint = \<lfloor>of_int (y block) + of_int (height block) * (r1 * 0.4 + 0.3)\<rfloor>;
                blockA = \<lparr>x = x block, y = y block,
                          width = width block, height = splitPoint - y block\<rparr>;
                blockB = \<lparr>x = x block, y = splitPoint,
                          width = width block, height = y block + height block - splitPoint\<rparr>;
                (blocksA, rng3) = generateBlocks_depths blockA (depth + 1) maxDepth rng2;
                (blocksB, rng4) = generateBlocks_depths blockB (depth + 1) maxDepth rng3
            in (blocksA @ blocksB, rng4)
          else if splitVertically \<and> width block > MIN_BLOCK_SIZE then
            let (r1, rng2) = rng_next rng1;
                splitPoint = \<lfloor>of_int (x block) + of_int (width block) * (r1 * 0.4 + 0.3)\<rfloor>;
                blockA = \<lparr>x = x block, y = y block,
                          width = splitPoint - x block, height = height block\<rparr>;
                blockB = \<lparr>x = splitPoint, y = y block,
                          width = x block + width block - splitPoint, height = height block\<rparr>;
                (blocksA, rng3) = generateBlocks_depths blockA (depth + 1) maxDepth rng2;
                (blocksB, rng4) = generateBlocks_depths blockB (depth + 1) maxDepth rng3
            in (blocksA @ blocksB, rng4)
          else ([(block, depth)], rng1))"
  by pat_completeness auto
termination
  by (relation "measure (\<lambda>(block, depth, maxDepth, rng). nat (maxDepth - depth))") auto

declare generateBlocks_depths.simps [simp del]

section \<open>Two generator objects driven side by side\<close>

text \<open>
  A call of one of the three drawing methods, and its result as a number
  (\<open>nextInt\<close> returns an integer).
\<close>

datatype Call = Next | NextInt int int | NextFloat real real

fun invoke :: "Call \<Rightarrow> SeededRandom \<Rightarrow> real \<times> SeededRandom" where
  "invoke Next rng = rng_next rng"
| "invoke (NextInt lo hi) rng = (let (n, rng') = nextInt lo hi rng in (of_int n, rng'))"
| "invoke (NextFloat lo hi) rng = nextFloat lo hi rng"

text \<open>The outputs of one generator driven by a list of calls.\<close>

fun run :: "SeededRandom \<Rightarrow> Call list \<Rightarrow> real list" where
  "run rng [] = []"
| "run rng (c # cs) = (let (v, rng') = invoke c rng in v # run rng' cs)"

text \<open>
  Generator objects live in a store, addressed by reference. A program is a list of
  statements: \<open>New r s\<close> is \<open>r = new SeededRandom(s)\<close>, \<open>Invoke r c\<close> calls method
  \<open>c\<close> on the object at \<open>r\<close>. Running a program gives the outputs in program order, each
  with the reference it came from; calling a method on a reference that holds no object is
  the TypeError of JavaScript, \<open>None\<close> here.
\<close>

type_synonym ref = nat

type_synonym store = "ref \<rightharpoonup> SeededRandom"

datatype Stmt = New ref int | Invoke ref Call

fun exec :: "store \<Rightarrow> Stmt list \<Rightarrow> (ref \<times> real) list option" where
  "exec h [] = Some []"
| "exec h (New r s # p) = exec (h(r \<mapsto> new_SeededRandom s)) p"
| "exec h (Invoke r c # p) =
     (case h r of
        None \<Rightarrow> None
      | Some rng \<Rightarrow>
          (let (v, rng') = invoke c rng
           in case exec (h(r \<mapsto> rng')) p of
                None \<Rightarrow> None
              | Some outs \<Rightarrow> Some ((r, v) # outs)))"

fun calls_on :: "ref \<Rightarrow> Stmt list \<Rightarrow> Call list" where
  "calls_on r [] = []"
| "calls_on r (New r' s # p) = calls_on r p"
| "calls_on r (Invoke r' c # p) = (if r' = r then c # calls_on r p else calls_on r p)"

definition outputs_of :: "ref \<Rightarrow> (ref \<times> real) list \<Rightarrow> real list" where
  "outputs_of r outs = map snd (filter (\<lambda>out. fst out = r) outs)"

fun invokes_only :: "ref set \<Rightarrow> Stmt list \<Rightarrow> bool" where
  "invokes_only R [] = True"
| "invokes_only R (New r s # p) = False"
| "invokes_only R (Invoke r c # p) = (r \<in> R \<and> invokes_only R p)"

section \<open>The renderer (shared generation module)\<close>

text \<open>
  The drawing surface is outside the repository. The model keeps the properties the
  function assigns and a log of the \<open>fillRect\<close> and \<open>strokeRect\<close> calls, each with
  the style in force when it was made.
\<close>

datatype DrawOp =
    FillRect string Block
  | StrokeRect string real string string Block

record Canvas =
  fillStyle :: string
  strokeStyle :: string
  lineWidth :: real
  lineCap :: string
  lineJoin :: string
  ops :: "DrawOp list"

definition PRIMARY_COLORS :: "string list" where
  "PRIMARY_COLORS = [''#FF0000'', ''#0000FF'', ''#FFFF00'']"

definition BACKGROUND_COLOR :: string where
  "BACKGROUND_COLOR = ''#FFFFFF''"

text \<open>
  Reading an array at an index outside it gives \<open>undefined\<close>, and the canvas ignores an
  assignment of a value that is no colour to \<open>fillStyle\<close>.
\<close>

definition js_index :: "'a list \<Rightarrow> int \<Rightarrow> 'a option" where
  "js_index xs i = (if 0 \<le> i \<and> i < int (length xs) then Some (xs ! nat i) else None)"

definition set_fillStyle :: "string option \<Rightarrow> Canvas \<Rightarrow> Canvas" where
  "set_fillStyle v ctx = (case v of None \<Rightarrow> ctx | Some c \<Rightarrow> ctx\<lparr>fillStyle := c\<rparr>)"

definition fillRect :: "Block \<Rightarrow> Canvas \<Rightarrow> Canvas" where
  "fillRect b ctx = ctx\<lparr>ops := ops ctx @ [FillRect (fillStyle ctx) b]\<rparr>"

definition strokeRect :: "Block \<Rightarrow> Canvas \<Rightarrow> Canvas" where
  "strokeRect b ctx =
     ctx\<lparr>ops := ops ctx @
        [StrokeRect (strokeStyle ctx) (lineWidth ctx) (lineCap ctx) (lineJoin ctx) b]\<rparr>"

text \<open>The first loop of \<open>drawComposition\<close>.\<close>

fun fillBlocks ::
  "Canvas \<Rightarrow> Block list \<Rightarrow> real \<Rightarrow> SeededRandom \<Rightarrow> Canvas \<times> SeededRandom" where
  "fillBlocks ctx [] colorChance rng = (ctx, rng)"
| "fillBlocks ctx (block # blocks) colorChance rng =
     (let (r0, rng1) = rng_next rng in
      if r0 < colorChance then
        let (r1, rng2) = rng_next rng1;
            colorIndex = \<lfloor>r1 * of_nat (length PRIMARY_COLORS)\<rfloor>;
            ctx1 = set_fillStyle (js_index PRIMARY_COLORS colorIndex) ctx
        in fillBlocks (fillRect block ctx1) blocks colorChance rng2
      else
        let ctx1 = set_fillStyle (Some BACKGROUND_COLOR) ctx
        in fillBlocks (fillRect block ctx1) blocks colorChance rng1)"

text \<open>The second loop.\<close>

fun strokeBlocks :: "Canvas \<Rightarrow> Block list \<Rightarrow> Canvas" where
  "strokeBlocks ctx [] = ctx"
| "strokeBlocks ctx (block # blocks) = strokeBlocks (strokeRect block ctx) blocks"

definition drawComposition ::
  "Canvas \<Rightarrow> Block list \<Rightarrow> real \<Rightarrow> real \<Rightarrow> SeededRandom \<Rightarrow> Canvas \<times> SeededRandom" where
  "drawComposition ctx blocks colorChance lineWeight rng =
     (let (ctx1, rng1) = fillBlocks ctx blocks colorChance rng;
          ctx2 = ctx1\<lparr>strokeStyle := ''#000000'', lineWidth := lineWeight,
                      lineCap := ''butt'', lineJoin := ''miter''\<rparr>
      in (strokeBlocks ctx2 blocks, rng1))"

text \<open>
  What the renderer does with one block, in the words of the specification: \<open>g\<close> is the
  generator when the renderer reaches block \<open>b\<close>, \<open>fill\<close> the \<open>fillRect\<close> call made
  for it and \<open>k\<close> the number of draws it takes. The first draw \<open>r0\<close> decides: below
  \<open>colorChance\<close> a second draw \<open>r1\<close> selects one of the three palette entries and the
  block takes two draws, otherwise the block is filled with the background and takes one.
\<close>

definition block_fill_ok :: "real \<Rightarrow> SeededRandom \<Rightarrow> Block \<Rightarrow> DrawOp \<Rightarrow> nat \<Rightarrow> bool" where
  "block_fill_ok colorChance g b fill k \<longleftrightarrow>
     (let r0 = fst (rng_next g);
          r1 = fst (rng_next (snd (rng_next g)))
      in if r0 < colorChance
         then k = 2 \<and> nat \<lfloor>r1 * 3\<rfloor> < 3 \<and> fill = FillRect (PRIMARY_COLORS ! nat \<lfloor>r1 * 3\<rfloor>) b
         else k = 1 \<and> fill = FillRect BACKGROUND_COLOR b)"

section \<open>The server (generation scheduler and health endpoint)\<close>

datatype ServerEvent =
    Generate int int int real int int
  | Audio int "real list" int
  | Sync int int
  | Users nat
  | Welcome string int

text \<open>
  \<open>Generate timestamp seed depth colorChance lineWeight duration\<close>,
  \<open>Audio timestamp frequencies duration\<close>, \<open>Sync serverTime clientTime\<close>,
  \<open>Users count\<close>, \<open>Welcome clientId serverTime\<close>: the events of shared/types.ts.
\<close>

datatype LogLine =
    LogGenerated int int nat
  | LogAudio "int list"

record ClientInfo =
  clientId :: string
  connectedAt :: int

text \<open>
  The state of the server process: the map of connected clients (a JavaScript \<open>Map\<close>, kept
  as an association list in insertion order), the timer handle of the scheduler, what
  \<open>io.emit\<close> has broadcast, what was written to the console, and how many values have
  been read from the clock and from \<open>Math.random\<close>. The values read are given by an
  environment.
\<close>

record ServerState =
  connectedClients :: "(string \<times> ClientInfo) list"
  generationInterval :: "nat option"
  emitted :: "ServerEvent list"
  console :: "LogLine list"
  clockReads :: nat
  randomReads :: nat

record Env =
  dateNow :: "nat \<Rightarrow> int"
  mathRandom :: "nat \<Rightarrow> real"

definition GENERATION_INTERVAL :: int where
  "GENERATION_INTERVAL = 5000"

definition Date_now :: "Env \<Rightarrow> ServerState \<Rightarrow> int \<times> ServerState" where
  "Date_now env st = (dateNow env (clockReads st), st\<lparr>clockReads := Suc (clockReads st)\<rparr>)"

definition Math_random :: "Env \<Rightarrow> ServerState \<Rightarrow> real \<times> ServerState" where
  "Math_random env st =
     (mathRandom env (randomReads st), st\<lparr>randomReads := Suc (randomReads st)\<rparr>)"

definition io_emit :: "ServerEvent \<Rightarrow> ServerState \<Rightarrow> ServerState" where
  "io_emit ev st = st\<lparr>emitted := emitted st @ [ev]\<rparr>"

definition console_log :: "LogLine \<Rightarrow> ServerState \<Rightarrow> ServerState" where
  "console_log l st = st\<lparr>console := console st @ [l]\<rparr>"

text \<open>\<open>generateRandomParams\<close> returns \<open>(depth, colorChance, lineWeight)\<close>.\<close>

definition generateRandomParams ::
  "Env \<Rightarrow> ServerState \<Rightarrow> (int \<times> real \<times> int) \<times> ServerState" where
  "generateRandomParams env st =
     (let (r0, st1) = Math_random env st;
          (r1, st2) = Math_random env st1;
          (r2, st3) = Math_random env st2
      in ((\<lfloor>r0 * 3\<rfloor> + 4, r1 * 0.2 + 0.2, \<lfloor>r2 * 19\<rfloor> + 12), st3))"

definition getRandomFrequency :: "Env \<Rightarrow> ServerState \<Rightarrow> real \<times> ServerState" where
  "getRandomFrequency env st =
     (let (r, st1) = Math_random env st in (r * (880 - 220) + 220, st1))"

definition Math_round :: "real \<Rightarrow> int" where
  "Math_round v = \<lfloor>v + 0.5\<rfloor>"

definition generateAndBroadcast :: "Env \<Rightarrow> ServerState \<Rightarrow> ServerState" where
  "generateAndBroadcast env st =
     (if length (connectedClients st) = 0 then st
      else
        let (seed0, st1) = Date_now env st;
            ((depth, colorChance, lineWeight), st2) = generateRandomParams env st1;
            (timestamp, st3) = Date_now env st2;
            st4 = io_emit (Generate timestamp seed0 depth colorChance lineWeight
                             GENERATION_INTERVAL) st3;
            st5 = console_log (LogGenerated seed0 depth (length (connectedClients st4))) st4;
            (r, st6) = Math_random env st5;
            shouldPlayCombination = (r > 0.5);
            (frequencies, st7) =
               (if shouldPlayCombination then
                  let (f0, sa) = getRandomFrequency env st6;
                      (f1, sb) = getRandomFrequency env sa
                  in ([f0, f1], sb)
                else
                  let (f0, sa) = getRandomFrequency env st6 in ([f0], sa));
            (timestamp2, st8) = Date_now env st7;
            st9 = io_emit (Audio timestamp2 frequencies 5) st8
        in console_log (LogAudio (map Math_round frequencies)) st9)"

text \<open>
  The body that the \<open>/health\<close> handler passes to \<open>res.json\<close>: an object, as the list of
  its keys and values in the order written. \<open>uptime\<close> is the value of
  \<open>process.uptime()\<close>, a number of seconds.
\<close>

datatype Json = JString string | JNumber real

definition health :: "ServerState \<Rightarrow> real \<Rightarrow> (string \<times> Json) list" where
  "health st uptime =
     [(''status'', JString ''ok''),
      (''clients'', JNumber (of_nat (length (connectedClients st)))),
      (''uptime'', JNumber uptime)]"

section \<open>The client (web/socket.ts)\<close>

datatype ClientLog =
    LogWelcome string
  | LogInitialOffset real
  | LogClockSync real real
  | LogOther

record MondrianSocketClient =
  myClientId :: "string option"
  clockOffset :: real
  clientConsole :: "ClientLog list"

definition new_MondrianSocketClient :: MondrianSocketClient where
  "new_MondrianSocketClient = \<lparr>myClientId = None, clockOffset = 0, clientConsole = []\<rparr>"

text \<open>
  The handlers that \<open>connect()\<close> registers for the events of the server, as one function
  of the event received; \<open>now\<close> is what \<open>Date.now()\<close> returns in the handler. The
  handlers of \<open>generate\<close>, \<open>audio\<close> and \<open>users\<close> write to the console and call the
  callbacks of the page; they do not touch the fields of the client.
\<close>

fun on_event :: "int \<Rightarrow> ServerEvent \<Rightarrow> MondrianSocketClient \<Rightarrow> MondrianSocketClient" where
  "on_event now (Welcome cid serverTime) c =
     (let c1 = c\<lparr>clientConsole := clientConsole c @ [LogWelcome cid]\<rparr>;
          c2 = c1\<lparr>myClientId := Some cid\<rparr>;
          c3 = c2\<lparr>clockOffset := of_int serverTime - of_int now\<rparr>
      in c3\<lparr>clientConsole := clientConsole c3 @ [LogInitialOffset (clockOffset c3)]\<rparr>)"
| "on_event now (Sync serverTime clientTime) c =
     (let rtt = of_int now - of_int clientTime;
          c1 = c\<lparr>clockOffset := of_int serverTime - (of_int clientTime + rtt / 2)\<rparr>
      in c1\<lparr>clientConsole := clientConsole c1 @ [LogClockSync (clockOffset c1) rtt]\<rparr>)"
| "on_event now ev c = c\<lparr>clientConsole := clientConsole c @ [LogOther]\<rparr>"

text \<open>The client after a run of events, each with the local time of its receipt.\<close>

fun on_events ::
  "(int \<times> ServerEvent) list \<Rightarrow> MondrianSocketClient \<Rightarrow> MondrianSocketClient" where
  "on_events [] c = c"
| "on_events ((now, ev) # evs) c = on_events evs (on_event now ev c)"

definition getServerTime :: "int \<Rightarrow> MondrianSocketClient \<Rightarrow> real" where
  "getServerTime now c = of_int now + clockOffset c"

section \<open>Facts about the generator\<close>

lemma js_rem_nonneg: "0 \<le> a \<Longrightarrow> 0 < b \<Longrightarrow> js_rem a b = a mod b"
  by (cases "a = 0") (simp_all add: js_rem_def)

lemma js_rem_bounds:
  assumes "0 < b"
  shows "- b < js_rem a b \<and> js_rem a b < b"
proof -
  have m: "0 \<le> \<bar>a\<bar> mod b \<and> \<bar>a\<bar> mod b < b"
    using assms by simp
  have "js_rem a b = sgn a * (\<bar>a\<bar> mod b)"
    using assms by (simp add: js_rem_def)
  then show ?thesis
    using m by (cases a "0::int" rule: linorder_cases) simp_all
qed

lemma rng_next_seed:
  "0 \<le> seed rng \<Longrightarrow> seed (snd (rng_next rng)) = (seed rng * 9301 + 49297) mod 233280"
  by (simp add: rng_next_def Let_def js_rem_nonneg)

lemma rng_next_fst:
  "fst (rng_next rng) = of_int (seed (snd (rng_next rng))) / 233280"
  by (simp add: rng_next_def Let_def)

lemma rng_next_draws: "draws (snd (rng_next rng)) = Suc (draws rng)"
  by (simp add: rng_next_def Let_def)

lemma rng_next_ok: "rng_ok rng \<Longrightarrow> rng_ok (snd (rng_next rng))"
  by (simp add: rng_ok_def rng_next_seed)

lemma rng_next_range:
  assumes "rng_ok rng"
  shows "0 \<le> fst (rng_next rng) \<and> fst (rng_next rng) < 1"
proof -
  have "0 \<le> seed (snd (rng_next rng)) \<and> seed (snd (rng_next rng)) < 233280"
    using assms by (simp add: rng_ok_def rng_next_seed)
  then show ?thesis by (simp add: rng_next_fst)
qed

lemma new_SeededRandom_ok: "rng_ok (new_SeededRandom s)"
  using js_rem_bounds [of 233280 s]
  by (simp add: rng_ok_def new_SeededRandom_def Let_def)

text \<open>
  The comparison of the stop check is a comparison of integers: the draw is below \<open>0.2\<close>
  exactly when the new state is below \<open>46656\<close>. (At \<open>46656\<close> the quotient is \<open>1/5\<close>,
  whose double is the double of the literal \<open>0.2\<close>; every smaller state is further from it
  than any rounding, so the comparison of doubles decides the same.)
\<close>

lemma stop_draw_iff:
  "fst (rng_next rng) < 0.2 \<longleftrightarrow> seed (snd (rng_next rng)) < 46656"
  by (simp add: rng_next_fst)

section \<open>Determinism of the generator\<close>

lemma length_run: "length (run rng cs) = length cs"
  by (induction cs arbitrary: rng) (simp_all add: case_prod_beta Let_def)

lemma outputs_of_Cons:
  "outputs_of r ((r', v) # outs) = (if r' = r then v # outputs_of r outs else outputs_of r outs)"
  by (simp add: outputs_of_def)

lemma exec_invokes:
  assumes "invokes_only R p" and "R \<subseteq> dom h"
  shows "\<exists>outs. exec h p = Some outs \<and>
           (\<forall>r \<in> R. outputs_of r outs = run (the (h r)) (calls_on r p))"
  using assms
proof (induction p arbitrary: h)
  case Nil
  show ?case by (simp add: outputs_of_def)
next
  case (Cons s p)
  show ?case
  proof (cases s)
    case (New r sd)
    then show ?thesis using Cons.prems by simp
  next
    case (Invoke r c)
    then have rR: "r \<in> R" and rest: "invokes_only R p"
      using Cons.prems(1) by simp_all
    then obtain g where g: "h r = Some g"
      using Cons.prems(2) by blast
    let ?v = "fst (invoke c g)"
    let ?g' = "snd (invoke c g)"
    let ?h' = "h(r \<mapsto> ?g')"
    have "R \<subseteq> dom ?h'" using Cons.prems(2) by auto
    from Cons.IH [OF rest this] obtain outs where
      outs: "exec ?h' p = Some outs"
        "\<forall>q \<in> R. outputs_of q outs = run (the (?h' q)) (calls_on q p)"
      by blast
    have ex: "exec h (s # p) = Some ((r, ?v) # outs)"
      using Invoke g outs(1) by (simp add: case_prod_beta Let_def)
    have "outputs_of q ((r, ?v) # outs) = run (the (h q)) (calls_on q (s # p))"
      if "q \<in> R" for q
      using outs(2) that Invoke g
      by (cases "q = r") (simp_all add: outputs_of_Cons case_prod_beta Let_def)
    then show ?thesis using ex by blast
  qed
qed

text \<open>
  Claim C1. Two generator objects, constructed independently (at different references) with
  the same integer seed and driven by the same list of \<open>next()\<close>, \<open>nextInt()\<close> and
  \<open>nextFloat()\<close> calls, in any interleaving of the calls on the one with the calls on the
  other, produce the same outputs: the program runs without error, the output lists of the
  two objects are equal, they are the outputs of one generator run alone on the calls, they
  have one output for each of the \<open>N\<close> calls, and they agree at each of the \<open>N\<close>
  positions.
\<close>

theorem seeded_determinism:
  assumes "a \<noteq> b"
    and "invokes_only {a, b} body"
    and "calls_on a body = calls_on b body"
  shows "\<exists>outs. exec h (New a s # New b s # body) = Some outs \<and>
           outputs_of a outs = outputs_of b outs \<and>
           outputs_of a outs = run (new_SeededRandom s) (calls_on a body) \<and>
           length (outputs_of a outs) = length (calls_on a body) \<and>
           (\<forall>i < length (calls_on a body). outputs_of a outs ! i = outputs_of b outs ! i)"
proof -
  let ?h = "h(a \<mapsto> new_SeededRandom s, b \<mapsto> new_SeededRandom s)"
  have "{a, b} \<subseteq> dom ?h" by simp
  from exec_invokes [OF assms(2) this] obtain outs where
    outs: "exec ?h body = Some outs"
      "\<forall>r \<in> {a, b}. outputs_of r outs = run (the (?h r)) (calls_on r body)"
    by blast
  have oa: "outputs_of a outs = run (new_SeededRandom s) (calls_on a body)"
    using outs(2) assms(1) by simp
  have ob: "outputs_of b outs = run (new_SeededRandom s) (calls_on b body)"
    using outs(2) by simp
  have "exec h (New a s # New b s # body) = Some outs"
    using outs(1) by simp
  then show ?thesis
    using oa ob assms(3) by (simp add: length_run)
qed

theorem seeded_determinism_witness:
  "(0::nat) \<noteq> 1 \<and>
   invokes_only {0, 1} [Invoke 0 Next, Invoke 1 Next, Invoke 1 (NextInt 1 6), Invoke 0 (NextInt 1 6)] \<and>
   calls_on 0 [Invoke 0 Next, Invoke 1 Next, Invoke 1 (NextInt 1 6), Invoke 0 (NextInt 1 6)] =
   calls_on 1 [Invoke 0 Next, Invoke 1 Next, Invoke 1 (NextInt 1 6), Invoke 0 (NextInt 1 6)] \<and>
   exec Map.empty [New 0 42, New 1 42,
       Invoke 0 Next, Invoke 1 Next, Invoke 1 (NextInt 1 6), Invoke 0 (NextInt 1 6)] =
     Some [(0, 206659 / 233280), (1, 206659 / 233280), (1, 5), (0, 5)]"
  using seeded_determinism [where a = 0 and b = 1 and s = 42 and h = Map.empty and
      body = "[Invoke 0 Next, Invoke 1 Next, Invoke 1 (NextInt 1 6), Invoke 0 (NextInt 1 6)]"]
  by (simp add: new_SeededRandom_def rng_next_def nextInt_def js_rem_def Let_def)

section \<open>The stop checks of the partitioner\<close>

lemma generateBlocks_unfold:
  "generateBlocks block depth maxDepth rng =
     (if depth \<ge> maxDepth then ([block], rng)
      else if width block < MIN_BLOCK_SIZE \<and> height block < MIN_BLOCK_SIZE then ([block], rng)
      else if fst (rng_next rng) < 0.2 \<and> depth > 0 then ([block], snd (rng_next rng))
      else subdivide block depth maxDepth (snd (rng_next rng)))"
  by (subst generateBlocks.simps) (simp add: subdivide_def Let_def split: prod.splits)

text \<open>
  Claim C4. In a call with \<open>depth < maxDepth\<close>: if both dimensions are below the minimum
  block size, the call returns the block alone and the generator is untouched (no draw);
  if not, and the draw of the stop check is below \<open>0.2\<close> at a depth above \<open>0\<close>, the call
  returns the block alone and the generator has made exactly that one draw. The draw is
  made only when the first disjunct is false.
\<close>

theorem generateBlocks_stop_check_draws:
  assumes "depth < maxDepth"
  shows "(width block < MIN_BLOCK_SIZE \<and> height block < MIN_BLOCK_SIZE \<longrightarrow>
            generateBlocks block depth maxDepth rng = ([block], rng)) \<and>
         (\<not> (width block < MIN_BLOCK_SIZE \<and> height block < MIN_BLOCK_SIZE) \<and>
            fst (rng_next rng) < 0.2 \<and> depth > 0 \<longrightarrow>
            generateBlocks block depth maxDepth rng = ([block], snd (rng_next rng)) \<and>
            draws (snd (generateBlocks block depth maxDepth rng)) = draws rng + 1)"
  using assms by (simp add: generateBlocks_unfold rng_next_draws)

theorem generateBlocks_stop_check_draws_witness:
  "(1::int) < 4 \<and>
   generateBlocks \<lparr>x = 0, y = 0, width = 100, height = 100\<rparr> 1 4 (new_SeededRandom 42)
     = ([\<lparr>x = 0, y = 0, width = 100, height = 100\<rparr>], \<lparr>seed = 42, draws = 0\<rparr>) \<and>
   generateBlocks \<lparr>x = 0, y = 0, width = 800, height = 600\<rparr> 1 4 (new_SeededRandom 20)
     = ([\<lparr>x = 0, y = 0, width = 800, height = 600\<rparr>], \<lparr>seed = 2037, draws = 1\<rparr>)"
  using generateBlocks_stop_check_draws
          [of 1 4 "\<lparr>x = 0, y = 0, width = 100, height = 100\<rparr>" "new_SeededRandom 42"]
        generateBlocks_stop_check_draws
          [of 1 4 "\<lparr>x = 0, y = 0, width = 800, height = 600\<rparr>" "new_SeededRandom 20"]
  by (simp add: MIN_BLOCK_SIZE_def new_SeededRandom_def rng_next_def js_rem_def Let_def)

text \<open>
  Claim C10. In a call at depth \<open>0\<close> with \<open>0 < maxDepth\<close> whose block is not below the
  minimum in both dimensions, the stop check draws one value and the call goes on to the
  subdivision whatever that value is: the result is the result of the subdivision run on the
  generator after exactly one draw. The root is never an early-stop terminal, and the draw
  of the stop check is consumed all the same.
\<close>

theorem generateBlocks_root_draw:
  assumes "0 < maxDepth"
    and "\<not> (width block < MIN_BLOCK_SIZE \<and> height block < MIN_BLOCK_SIZE)"
  shows "generateBlocks block 0 maxDepth rng = subdivide block 0 maxDepth (snd (rng_next rng)) \<and>
         draws (snd (rng_next rng)) = draws rng + 1"
  using assms by (auto simp add: generateBlocks_unfold rng_next_draws)

theorem generateBlocks_root_draw_witness:
  "(0::int) < 1 \<and>
   \<not> (width \<lparr>x = 0, y = 0, width = 800, height = 600\<rparr> < MIN_BLOCK_SIZE \<and>
      height \<lparr>x = 0, y = 0, width = 800, height = 600\<rparr> < MIN_BLOCK_SIZE) \<and>
   fst (rng_next (new_SeededRandom 20)) < 0.2 \<and>
   generateBlocks \<lparr>x = 0, y = 0, width = 800, height = 600\<rparr> 0 1 (new_SeededRandom 20) =
     ([\<lparr>x = 0, y = 0, width = 376, height = 600\<rparr>,
       \<lparr>x = 376, y = 0, width = 424, height = 600\<rparr>], \<lparr>seed = 99754, draws = 2\<rparr>) \<and>
   subdivide \<lparr>x = 0, y = 0, width = 800, height = 600\<rparr> 0 1
       (snd (rng_next (new_SeededRandom 20))) =
     ([\<lparr>x = 0, y = 0, width = 376, height = 600\<rparr>,
       \<lparr>x = 376, y = 0, width = 424, height = 600\<rparr>], \<lparr>seed = 99754, draws = 2\<rparr>)"
  using generateBlocks_root_draw
      [of 1 "\<lparr>x = 0, y = 0, width = 800, height = 600\<rparr>" "new_SeededRandom 20"]
  by (simp add: generateBlocks_unfold subdivide_def MIN_BLOCK_SIZE_def new_SeededRandom_def
      rng_next_def js_rem_def Let_def)

lemma subdivide_square:
  "width block = height block \<Longrightarrow> subdivide block depth maxDepth rng = ([block], rng)"
  by (simp add: subdivide_def)

lemma generateBlocks_square:
  assumes "depth < maxDepth" "width block = height block" "MIN_BLOCK_SIZE < width block"
    and "\<not> (fst (rng_next rng) < 0.2 \<and> depth > 0)"
  shows "generateBlocks block depth maxDepth rng = ([block], snd (rng_next rng))"
  using assms by (simp add: generateBlocks_unfold subdivide_square)

text \<open>
  Claim C2 (the code does not do this). An exact square above the minimum size, at a depth
  below the maximum and with the early stop not taken, is returned whole after the one draw
  of the stop check: no further value is drawn and no axis is chosen. Evaluated for the
  square of side 800 at depth 0 with seed 42.
\<close>

theorem generateBlocks_square_not_split:
  "generateBlocks \<lparr>x = 0, y = 0, width = 800, height = 800\<rparr> 0 4 (new_SeededRandom 42)
   = ([\<lparr>x = 0, y = 0, width = 800, height = 800\<rparr>], \<lparr>seed = 206659, draws = 1\<rparr>)"
  by (simp add: generateBlocks_square MIN_BLOCK_SIZE_def new_SeededRandom_def
      rng_next_def js_rem_def Let_def)

section \<open>The blocks tile the rectangle\<close>

lemma subdivide_cases [case_names Horizontal Vertical Whole]:
  obtains
    (Horizontal) sp ra rb where
      "height b > width b" "height b > MIN_BLOCK_SIZE"
      "sp = \<lfloor>of_int (y b) + of_int (height b) * (fst (rng_next g) * 0.4 + 0.3)\<rfloor>"
      "ra = generateBlocks \<lparr>x = x b, y = y b, width = width b, height = sp - y b\<rparr>
              (d + 1) m (snd (rng_next g))"
      "rb = generateBlocks \<lparr>x = x b, y = sp, width = width b, height = y b + height b - sp\<rparr>
              (d + 1) m (snd ra)"
      "subdivide b d m g = (fst ra @ fst rb, snd rb)"
  | (Vertical) sp ra rb where
      "width b > height b" "width b > MIN_BLOCK_SIZE"
      "sp = \<lfloor>of_int (x b) + of_int (width b) * (fst (rng_next g) * 0.4 + 0.3)\<rfloor>"
      "ra = generateBlocks \<lparr>x = x b, y = y b, width = sp - x b, height = height b\<rparr>
              (d + 1) m (snd (rng_next g))"
      "rb = generateBlocks \<lparr>x = sp, y = y b, width = x b + width b - sp, height = height b\<rparr>
              (d + 1) m (snd ra)"
      "subdivide b d m g = (fst ra @ fst rb, snd rb)"
  | (Whole) "subdivide b d m g = ([b], g)"
proof -
  consider "height b > width b \<and> height b > MIN_BLOCK_SIZE"
    | "\<not> (height b > width b \<and> height b > MIN_BLOCK_SIZE)"
      "width b > height b \<and> width b > MIN_BLOCK_SIZE"
    | "\<not> (height b > width b \<and> height b > MIN_BLOCK_SIZE)"
      "\<not> (width b > height b \<and> width b > MIN_BLOCK_SIZE)"
    by blast
  then show thesis
  proof cases
    case 1
    then show thesis
      by (intro Horizontal [OF _ _ refl refl refl])
         (simp_all add: subdivide_def Let_def split: prod.splits)
  next
    case 2
    then show thesis
      by (intro Vertical [OF _ _ refl refl refl])
         (auto simp add: subdivide_def Let_def split: prod.splits)
  next
    case 3
    then show thesis
      by (intro Whole) (auto simp add: subdivide_def Let_def)
  qed
qed

lemma split_point_bounds:
  assumes "rng_ok g" and "0 \<le> e"
  shows "org \<le> \<lfloor>of_int org + of_int e * (fst (rng_next g) * 0.4 + 0.3)\<rfloor>"
    and "\<lfloor>of_int org + of_int e * (fst (rng_next g) * 0.4 + 0.3)\<rfloor> \<le> org + e"
proof -
  define f where "f = fst (rng_next g) * 0.4 + 0.3"
  have "0 \<le> f \<and> f \<le> 1"
    using rng_next_range [OF assms(1)] by (simp add: f_def)
  then have "0 \<le> of_int e * f \<and> of_int e * f \<le> of_int e"
    using assms(2) by (simp add: mult_left_le)
  then have b: "of_int org \<le> of_int org + of_int e * f \<and> of_int org + of_int e * f \<le> of_int (org + e)"
    by simp
  show "org \<le> \<lfloor>of_int org + of_int e * (fst (rng_next g) * 0.4 + 0.3)\<rfloor>"
    using b unfolding f_def [symmetric] by (simp add: le_floor_iff)
  show "\<lfloor>of_int org + of_int e * (fst (rng_next g) * 0.4 + 0.3)\<rfloor> \<le> org + e"
    using b unfolding f_def [symmetric] by (simp add: floor_le_iff)
qed

lemma region_split_h:
  assumes "y0 \<le> sp" "sp \<le> y0 + h"
  shows "region \<lparr>x = x0, y = y0, width = w, height = sp - y0\<rparr> \<union>
         region \<lparr>x = x0, y = sp, width = w, height = y0 + h - sp\<rparr>
         = region \<lparr>x = x0, y = y0, width = w, height = h\<rparr>"
    and "region \<lparr>x = x0, y = y0, width = w, height = sp - y0\<rparr> \<inter>
         region \<lparr>x = x0, y = sp, width = w, height = y0 + h - sp\<rparr> = {}"
  using assms by (auto simp: region_def)

lemma region_split_v:
  assumes "x0 \<le> sp" "sp \<le> x0 + w"
  shows "region \<lparr>x = x0, y = y0, width = sp - x0, height = h\<rparr> \<union>
         region \<lparr>x = sp, y = y0, width = x0 + w - sp, height = h\<rparr>
         = region \<lparr>x = x0, y = y0, width = w, height = h\<rparr>"
    and "region \<lparr>x = x0, y = y0, width = sp - x0, height = h\<rparr> \<inter>
         region \<lparr>x = sp, y = y0, width = x0 + w - sp, height = h\<rparr> = {}"
  using assms by (auto simp: region_def)

lemma non_overlapping_append:
  assumes "non_overlapping as" "non_overlapping bs"
    and "(\<Union>a \<in> set as. region a) \<inter> (\<Union>b \<in> set bs. region b) = {}"
  shows "non_overlapping (as @ bs)"
  unfolding non_overlapping_def
proof (intro allI impI)
  fix i j
  assume i: "i < length (as @ bs)" and j: "j < length (as @ bs)" and ne: "i \<noteq> j"
  have cross: "region a \<inter> region c = {}" if "a \<in> set as" "c \<in> set bs" for a c
    using assms(3) that by blast
  consider "i < length as" "j < length as" | "i < length as" "\<not> j < length as"
    | "\<not> i < length as" "j < length as" | "\<not> i < length as" "\<not> j < length as"
    by blast
  then show "region ((as @ bs) ! i) \<inter> region ((as @ bs) ! j) = {}"
  proof cases
    case 1
    then show ?thesis
      using assms(1) ne by (simp add: non_overlapping_def nth_append)
  next
    case 2
    then have "as ! i \<in> set as" "bs ! (j - length as) \<in> set bs"
      using j by simp_all
    then show ?thesis
      using 2 cross by (simp add: nth_append)
  next
    case 3
    then have "as ! j \<in> set as" "bs ! (i - length as) \<in> set bs"
      using i by simp_all
    then show ?thesis
      using 3 cross [of "as ! j" "bs ! (i - length as)"] by (simp add: nth_append Int_commute)
  next
    case 4
    then have "i - length as < length bs" "j - length as < length bs" "i - length as \<noteq> j - length as"
      using i j ne by auto
    then show ?thesis
      using 4 assms(2) by (simp add: non_overlapping_def nth_append)
  qed
qed

lemma Block_eta: "\<lparr>x = x b, y = y b, width = width b, height = height b\<rparr> = (b::Block)"
  by (cases b) simp

lemma tiles_single: "tiles [b] b"
  by (simp add: tiles_def non_overlapping_def)

lemma tiles_append:
  assumes "tiles as ba" "tiles bs bb"
    and "region ba \<union> region bb = region r" "region ba \<inter> region bb = {}"
  shows "tiles (as @ bs) r"
proof -
  have ua: "(\<Union>a \<in> set as. region a) = region ba" and ub: "(\<Union>b \<in> set bs. region b) = region bb"
    using assms(1,2) by (simp_all add: tiles_def)
  have "non_overlapping (as @ bs)"
    using assms(1,2,4) by (intro non_overlapping_append) (simp_all add: tiles_def)
  moreover have "(\<Union>b \<in> set (as @ bs). region b) = region r"
    using ua ub assms(3) by (simp add: UN_Un)
  ultimately show ?thesis by (simp add: tiles_def)
qed

lemma partition_tiles_and_rng_ok:
  "rng_ok g \<Longrightarrow> tiles (fst (generateBlocks b d m g)) b \<and> rng_ok (snd (generateBlocks b d m g))"
proof (induction "nat (m - d)" arbitrary: b d g)
  case 0
  then have "m \<le> d" by simp
  then show ?case
    using "0.prems" by (simp add: generateBlocks_unfold tiles_single)
next
  case (Suc n)
  have IH: "tiles (fst (generateBlocks b' (d + 1) m g')) b' \<and>
            rng_ok (snd (generateBlocks b' (d + 1) m g'))" if "rng_ok g'" for b' g'
    using Suc.hyps(1) [of "d + 1" g' b'] Suc.hyps(2) that by simp
  let ?g1 = "snd (rng_next g)"
  have g1: "rng_ok ?g1" using Suc.prems by (rule rng_next_ok)
  have sub: "tiles (fst (subdivide b d m ?g1)) b \<and> rng_ok (snd (subdivide b d m ?g1))"
  proof (cases b d m ?g1 rule: subdivide_cases)
    case (Horizontal sp ra rb)
    have g2: "rng_ok (snd (rng_next ?g1))" using g1 by (rule rng_next_ok)
    have hpos: "0 \<le> height b" using Horizontal(2) by (simp add: MIN_BLOCK_SIZE_def)
    have sp: "y b \<le> sp" "sp \<le> y b + height b"
      using split_point_bounds [OF g1 hpos, of "y b"] Horizontal(3) by simp_all
    have a: "tiles (fst ra) \<lparr>x = x b, y = y b, width = width b, height = sp - y b\<rparr>"
      and ga: "rng_ok (snd ra)"
      using IH [OF g2] Horizontal(4) by simp_all
    have b: "tiles (fst rb) \<lparr>x = x b, y = sp, width = width b, height = y b + height b - sp\<rparr>"
      and gb: "rng_ok (snd rb)"
      using IH [OF ga] Horizontal(5) by simp_all
    have "tiles (fst ra @ fst rb) \<lparr>x = x b, y = y b, width = width b, height = height b\<rparr>"
      using a b region_split_h [OF sp] by (rule tiles_append)
    then show ?thesis using Horizontal(6) gb by (simp add: Block_eta)
  next
    case (Vertical sp ra rb)
    have g2: "rng_ok (snd (rng_next ?g1))" using g1 by (rule rng_next_ok)
    have wpos: "0 \<le> width b" using Vertical(2) by (simp add: MIN_BLOCK_SIZE_def)
    have sp: "x b \<le> sp" "sp \<le> x b + width b"
      using split_point_bounds [OF g1 wpos, of "x b"] Vertical(3) by simp_all
    have a: "tiles (fst ra) \<lparr>x = x b, y = y b, width = sp - x b, height = height b\<rparr>"
      and ga: "rng_ok (snd ra)"
      using IH [OF g2] Vertical(4) by simp_all
    have b: "tiles (fst rb) \<lparr>x = sp, y = y b, width = x b + width b - sp, height = height b\<rparr>"
      and gb: "rng_ok (snd rb)"
      using IH [OF ga] Vertical(5) by simp_all
    have "tiles (fst ra @ fst rb) \<lparr>x = x b, y = y b, width = width b, height = height b\<rparr>"
      using a b region_split_v [OF sp] by (rule tiles_append)
    then show ?thesis using Vertical(6) gb by (simp add: Block_eta)
  next
    case Whole
    then show ?thesis using g1 by (simp add: tiles_single)
  qed
  show ?case
    using Suc.prems g1 sub by (simp add: generateBlocks_unfold tiles_single)
qed

lemma eval_800_600:
  "generateBlocks \<lparr>x = 0, y = 0, width = 800, height = 600\<rparr> 0 1 (new_SeededRandom 42) =
     ([\<lparr>x = 0, y = 0, width = 501, height = 600\<rparr>,
       \<lparr>x = 501, y = 0, width = 299, height = 600\<rparr>], \<lparr>seed = 190736, draws = 2\<rparr>)"
  by (simp add: generateBlocks_unfold subdivide_def MIN_BLOCK_SIZE_def new_SeededRandom_def
      rng_next_def js_rem_def Let_def)

text \<open>
  Claim C3. For every rectangle, every depth and maximum depth and every state a generator
  object can be in (\<open>rng_ok\<close>: what the constructor establishes and \<open>next()\<close>
  preserves), the blocks that \<open>generateBlocks\<close> returns tile the rectangle: their regions
  are pairwise disjoint and their union is the region of the rectangle.
\<close>

theorem generateBlocks_tiles:
  assumes "rng_ok rng"
  shows "tiles (fst (generateBlocks block depth maxDepth rng)) block"
  using partition_tiles_and_rng_ok [OF assms] by simp

theorem generateBlocks_tiles_witness:
  "rng_ok (new_SeededRandom 42) \<and>
   tiles [\<lparr>x = 0, y = 0, width = 501, height = 600\<rparr>,
          \<lparr>x = 501, y = 0, width = 299, height = 600\<rparr>]
     \<lparr>x = 0, y = 0, width = 800, height = 600\<rparr>"
  using generateBlocks_tiles [OF new_SeededRandom_ok,
      of "\<lparr>x = 0, y = 0, width = 800, height = 600\<rparr>" 0 1 42]
  by (simp add: eval_800_600 new_SeededRandom_ok)

section \<open>Termination and the depth bound\<close>

text \<open>
  The recursion of \<open>generateBlocks\<close> was accepted with the measure
  \<open>maxDepth - depth\<close>. Stated on the call relation of the function: every argument is in
  the domain of the recursion, and a recursive call is made only below the maximum depth,
  one level deeper.
\<close>

lemma generateBlocks_total: "generateBlocks_dom (block, depth, maxDepth, rng)"
proof -
  have "All generateBlocks_dom"
    by (relation "measure (\<lambda>(block, depth, maxDepth, rng). nat (maxDepth - depth))") auto
  then show ?thesis by simp
qed

lemma generateBlocks_rel_decreases:
  assumes "generateBlocks_rel (block', depth', maxDepth', rng') (block, depth, maxDepth, rng)"
  shows "maxDepth' = maxDepth \<and> depth' = depth + 1 \<and> depth < maxDepth \<and>
         nat (maxDepth' - depth') < nat (maxDepth - depth)"
  using assms by (cases rule: generateBlocks_rel.cases) auto

lemma generateBlocks_depths_unfold:
  "generateBlocks_depths b d m g =
     (if d \<ge> m then ([(b, d)], g)
      else if width b < MIN_BLOCK_SIZE \<and> height b < MIN_BLOCK_SIZE then ([(b, d)], g)
      else if fst (rng_next g) < 0.2 \<and> d > 0 then ([(b, d)], snd (rng_next g))
      else if height b > width b \<and> height b > MIN_BLOCK_SIZE then
        (let g1 = snd (rng_next g);
             sp = \<lfloor>of_int (y b) + of_int (height b) * (fst (rng_next g1) * 0.4 + 0.3)\<rfloor>;
             ra = generateBlocks_depths
                    \<lparr>x = x b, y = y b, width = width b, height = sp - y b\<rparr>
                    (d + 1) m (snd (rng_next g1));
             rb = generateBlocks_depths
                    \<lparr>x = x b, y = sp, width = width b, height = y b + height b - sp\<rparr>
                    (d + 1) m (snd ra)
         in (fst ra @ fst rb, snd rb))
      else if width b > height b \<and> width b > MIN_BLOCK_SIZE then
        (let g1 = snd (rng_next g);
             sp = \<lfloor>of_int (x b) + of_int (width b) * (fst (rng_next g1) * 0.4 + 0.3)\<rfloor>;
             ra = generateBlocks_depths
                    \<lparr>x = x b, y = y b, width = sp - x b, height = height b\<rparr>
                    (d + 1) m (snd (rng_next g1));
             rb = generateBlocks_depths
                    \<lparr>x = sp, y = y b, width = x b + width b - sp, height = height b\<rparr>
                    (d + 1) m (snd ra)
         in (fst ra @ fst rb, snd rb))
      else ([(b, d)], snd (rng_next g)))"
  by (subst generateBlocks_depths.simps) (simp add: Let_def split: prod.splits)

lemma generateBlocks_unfold_full:
  "generateBlocks b d m g =
     (if d \<ge> m then ([b], g)
      else if width b < MIN_BLOCK_SIZE \<and> height b < MIN_BLOCK_SIZE then ([b], g)
      else if fst (rng_next g) < 0.2 \<and> d > 0 then ([b], snd (rng_next g))
      else if height b > width b \<and> height b > MIN_BLOCK_SIZE then
        (let g1 = snd (rng_next g);
             sp = \<lfloor>of_int (y b) + of_int (height b) * (fst (rng_next g1) * 0.4 + 0.3)\<rfloor>;
             ra = generateBlocks
                    \<lparr>x = x b, y = y b, width = width b, height = sp - y b\<rparr>
                    (d + 1) m (snd (rng_next g1));
             rb = generateBlocks
                    \<lparr>x = x b, y = sp, width = width b, height = y b + height b - sp\<rparr>
                    (d + 1) m (snd ra)
         in (fst ra @ fst rb, snd rb))
      else if width b > height b \<and> width b > MIN_BLOCK_SIZE then
        (let g1 = snd (rng_next g);
             sp = \<lfloor>of_int (x b) + of_int (width b) * (fst (rng_next g1) * 0.4 + 0.3)\<rfloor>;
             ra = generateBlocks
                    \<lparr>x = x b, y = y b, width = sp - x b, height = height b\<rparr>
                    (d + 1) m (snd (rng_next g1));
             rb = generateBlocks
                    \<lparr>x = sp, y = y b, width = x b + width b - sp, height = height b\<rparr>
                    (d + 1) m (snd ra)
         in (fst ra @ fst rb, snd rb))
      else ([b], snd (rng_next g)))"
  by (subst generateBlocks.simps) (simp add: Let_def split: prod.splits)

lemma generateBlocks_depths_erase:
  "map fst (fst (generateBlocks_depths b d m g)) = fst (generateBlocks b d m g) \<and>
   snd (generateBlocks_depths b d m g) = snd (generateBlocks b d m g)"
proof (induction "nat (m - d)" arbitrary: b d g)
  case 0
  then have "m \<le> d" by simp
  then show ?case
    by (simp add: generateBlocks_depths_unfold generateBlocks_unfold_full)
next
  case (Suc n)
  have IH: "map fst (fst (generateBlocks_depths b' (d + 1) m g')) = fst (generateBlocks b' (d + 1) m g')"
    "snd (generateBlocks_depths b' (d + 1) m g') = snd (generateBlocks b' (d + 1) m g')" for b' g'
    using Suc.hyps(1) [of "d + 1" b' g'] Suc.hyps(2) by simp_all
  show ?case
    by (simp add: generateBlocks_depths_unfold [of b d] generateBlocks_unfold_full [of b d] Let_def IH)
qed

lemma generateBlocks_depths_shape:
  "fst (generateBlocks_depths b d m g) = [(b, d)] \<or>
   (d < m \<and> (\<exists>b1 g1 b2 g2. fst (generateBlocks_depths b d m g) =
      fst (generateBlocks_depths b1 (d + 1) m g1) @ fst (generateBlocks_depths b2 (d + 1) m g2)))"
proof -
  let ?H = "height b > width b \<and> height b > MIN_BLOCK_SIZE"
  let ?V = "width b > height b \<and> width b > MIN_BLOCK_SIZE"
  let ?leaf = "m \<le> d \<or> (width b < MIN_BLOCK_SIZE \<and> height b < MIN_BLOCK_SIZE) \<or>
               (fst (rng_next g) < 0.2 \<and> d > 0) \<or> (\<not> ?H \<and> \<not> ?V)"
  consider (leaf) ?leaf | (hor) "\<not> ?leaf" ?H | (ver) "\<not> ?leaf" "\<not> ?H" ?V
    by blast
  then show ?thesis
  proof cases
    case leaf
    then have "fst (generateBlocks_depths b d m g) = [(b, d)]"
      by (subst generateBlocks_depths_unfold) auto
    then show ?thesis ..
  next
    case hor
    then have "\<exists>b1 g1 b2 g2. fst (generateBlocks_depths b d m g) =
      fst (generateBlocks_depths b1 (d + 1) m g1) @ fst (generateBlocks_depths b2 (d + 1) m g2)"
      by (subst generateBlocks_depths_unfold [of b d]) (auto simp add: Let_def)
    then show ?thesis using hor by simp
  next
    case ver
    then have "\<exists>b1 g1 b2 g2. fst (generateBlocks_depths b d m g) =
      fst (generateBlocks_depths b1 (d + 1) m g1) @ fst (generateBlocks_depths b2 (d + 1) m g2)"
      by (subst generateBlocks_depths_unfold [of b d]) (auto simp add: Let_def)
    then show ?thesis using ver by simp
  qed
qed

lemma generateBlocks_shape:
  "fst (generateBlocks b d m g) = [b] \<or>
   (d < m \<and> (\<exists>b1 g1 b2 g2. fst (generateBlocks b d m g) =
      fst (generateBlocks b1 (d + 1) m g1) @ fst (generateBlocks b2 (d + 1) m g2)))"
proof -
  let ?H = "height b > width b \<and> height b > MIN_BLOCK_SIZE"
  let ?V = "width b > height b \<and> width b > MIN_BLOCK_SIZE"
  let ?leaf = "m \<le> d \<or> (width b < MIN_BLOCK_SIZE \<and> height b < MIN_BLOCK_SIZE) \<or>
               (fst (rng_next g) < 0.2 \<and> d > 0) \<or> (\<not> ?H \<and> \<not> ?V)"
  consider (leaf) ?leaf | (hor) "\<not> ?leaf" ?H | (ver) "\<not> ?leaf" "\<not> ?H" ?V
    by blast
  then show ?thesis
  proof cases
    case leaf
    then have "fst (generateBlocks b d m g) = [b]"
      by (subst generateBlocks_unfold_full) auto
    then show ?thesis ..
  next
    case hor
    then have "\<exists>b1 g1 b2 g2. fst (generateBlocks b d m g) =
      fst (generateBlocks b1 (d + 1) m g1) @ fst (generateBlocks b2 (d + 1) m g2)"
      by (subst generateBlocks_unfold_full [of b d]) (auto simp add: Let_def)
    then show ?thesis using hor by simp
  next
    case ver
    then have "\<exists>b1 g1 b2 g2. fst (generateBlocks b d m g) =
      fst (generateBlocks b1 (d + 1) m g1) @ fst (generateBlocks b2 (d + 1) m g2)"
      by (subst generateBlocks_unfold_full [of b d]) (auto simp add: Let_def)
    then show ?thesis using ver by simp
  qed
qed


lemma generateBlocks_depths_bound:
  "(c, k) \<in> set (fst (generateBlocks_depths b d m g)) \<Longrightarrow> d \<le> k \<and> k \<le> max d m"
proof (induction "nat (m - d)" arbitrary: b d g)
  case 0
  then have "m \<le> d" by simp
  then show ?case
    using "0.prems" by (simp add: generateBlocks_depths_unfold)
next
  case (Suc n)
  have IH: "d + 1 \<le> k \<and> k \<le> m"
    if "(c, k) \<in> set (fst (generateBlocks_depths b' (d + 1) m g'))" for b' g'
    using Suc.hyps(1) [of "d + 1" b' g'] Suc.hyps(2) that by simp
  have dm: "d < m" using Suc.hyps(2) by simp
  from generateBlocks_depths_shape [of b d m g] show ?case
  proof (elim disjE conjE exE)
    assume "fst (generateBlocks_depths b d m g) = [(b, d)]"
    then show ?thesis using Suc.prems dm by simp
  next
    fix b1 g1 b2 g2
    assume "fst (generateBlocks_depths b d m g) =
      fst (generateBlocks_depths b1 (d + 1) m g1) @ fst (generateBlocks_depths b2 (d + 1) m g2)"
    then have "(c, k) \<in> set (fst (generateBlocks_depths b1 (d + 1) m g1)) \<or>
               (c, k) \<in> set (fst (generateBlocks_depths b2 (d + 1) m g2))"
      using Suc.prems by simp
    then have "d + 1 \<le> k \<and> k \<le> m" using IH by blast
    then show ?thesis by simp
  qed
qed

lemma generateBlocks_length:
  "length (fst (generateBlocks b d m g)) \<le> 2 ^ nat (m - d)"
proof (induction "nat (m - d)" arbitrary: b d g)
  case 0
  then have "m \<le> d" by simp
  then show ?case
    by (simp add: generateBlocks_unfold_full)
next
  case (Suc n)
  have n: "nat (m - d) = Suc n" using Suc.hyps(2) by simp
  have e: "n = nat (m - (d + 1))" using Suc.hyps(2) by linarith
  have IH: "length (fst (generateBlocks b' (d + 1) m g')) \<le> 2 ^ n" for b' g'
    by (subst e) (rule Suc.hyps(1) [OF e])
  from generateBlocks_shape [of b d m g] show ?case
  proof (elim disjE conjE exE)
    assume "fst (generateBlocks b d m g) = [b]"
    then show ?thesis by (simp add: n)
  next
    fix b1 g1 b2 g2
    assume "fst (generateBlocks b d m g) =
      fst (generateBlocks b1 (d + 1) m g1) @ fst (generateBlocks b2 (d + 1) m g2)"
    then show ?thesis
      using IH [of b1 g1] IH [of b2 g2] by (simp add: n)
  qed
qed

lemma eval_depths_800_600:
  "generateBlocks_depths \<lparr>x = 0, y = 0, width = 800, height = 600\<rparr> 0 1 (new_SeededRandom 42) =
     ([(\<lparr>x = 0, y = 0, width = 501, height = 600\<rparr>, 1),
       (\<lparr>x = 501, y = 0, width = 299, height = 600\<rparr>, 1)], \<lparr>seed = 190736, draws = 2\<rparr>)"
  by (simp add: generateBlocks_depths_unfold MIN_BLOCK_SIZE_def new_SeededRandom_def
      rng_next_def js_rem_def Let_def)

text \<open>
  Claim C9. \<open>generateBlocks\<close> terminates on every input: every argument lies in the
  domain of its recursion, and each recursive call is one level deeper, which decreases
  \<open>maxDepth - depth\<close> (lemma \<open>generateBlocks_rel_decreases\<close>). Every returned block is
  returned by a call whose depth lies between the depth of the root call and the maximum
  depth (or is the root's own depth, when that is already at or above the maximum): no path
  from the root call makes more than \<open>maxDepth - depth\<close> subdivisions, and so at most
  \<open>2 ^ (maxDepth - depth)\<close> blocks are returned.
\<close>

theorem generateBlocks_depth_bound:
  "generateBlocks_dom (block, depth, maxDepth, rng) \<and>
   map fst (fst (generateBlocks_depths block depth maxDepth rng)) =
     fst (generateBlocks block depth maxDepth rng) \<and>
   (\<forall>(b, k) \<in> set (fst (generateBlocks_depths block depth maxDepth rng)).
      depth \<le> k \<and> k \<le> max depth maxDepth \<and> nat (k - depth) \<le> nat (maxDepth - depth)) \<and>
   length (fst (generateBlocks block depth maxDepth rng)) \<le> 2 ^ nat (maxDepth - depth)"
proof (intro conjI ballI)
  show "generateBlocks_dom (block, depth, maxDepth, rng)"
    by (rule generateBlocks_total)
  show "map fst (fst (generateBlocks_depths block depth maxDepth rng)) =
          fst (generateBlocks block depth maxDepth rng)"
    by (simp add: generateBlocks_depths_erase)
  show "length (fst (generateBlocks block depth maxDepth rng)) \<le> 2 ^ nat (maxDepth - depth)"
    by (rule generateBlocks_length)
next
  fix p
  assume p: "p \<in> set (fst (generateBlocks_depths block depth maxDepth rng))"
  obtain b k where bk: "p = (b, k)" by (cases p)
  have "depth \<le> k \<and> k \<le> max depth maxDepth"
    using p unfolding bk by (rule generateBlocks_depths_bound)
  then have "depth \<le> k \<and> k \<le> max depth maxDepth \<and>
             nat (k - depth) \<le> nat (maxDepth - depth)"
    by linarith
  then show "case p of (b, k) \<Rightarrow>
               depth \<le> k \<and> k \<le> max depth maxDepth \<and>
               nat (k - depth) \<le> nat (maxDepth - depth)"
    by (simp add: bk)
qed

theorem generateBlocks_depth_bound_witness:
  "fst (generateBlocks_depths \<lparr>x = 0, y = 0, width = 800, height = 600\<rparr> 0 1
          (new_SeededRandom 42)) =
     [(\<lparr>x = 0, y = 0, width = 501, height = 600\<rparr>, 1),
      (\<lparr>x = 501, y = 0, width = 299, height = 600\<rparr>, 1)] \<and>
   fst (generateBlocks \<lparr>x = 0, y = 0, width = 800, height = 600\<rparr> 0 1 (new_SeededRandom 42)) =
     [\<lparr>x = 0, y = 0, width = 501, height = 600\<rparr>,
      \<lparr>x = 501, y = 0, width = 299, height = 600\<rparr>] \<and>
   (0::int) \<le> 1 \<and> (1::int) \<le> max 0 1 \<and> nat (1 - 0) \<le> nat (1 - 0) \<and>
   length [\<lparr>x = 0, y = 0, width = 501, height = 600\<rparr>,
           \<lparr>x = 501, y = 0, width = 299, height = 600\<rparr>] \<le> (2::nat) ^ nat (1 - 0)"
  using generateBlocks_depth_bound
      [of "\<lparr>x = 0, y = 0, width = 800, height = 600\<rparr>" 0 1 "new_SeededRandom 42"]
  by (simp add: eval_depths_800_600)

section \<open>The draws of the renderer\<close>

lemma advance_0: "advance 0 g = g"
  by (simp add: advance_def)

lemma advance_Suc: "advance (Suc n) g = advance n (snd (rng_next g))"
  by (simp only: advance_def funpow_Suc_right o_apply)

lemma draws_advance: "draws (advance n g) = draws g + n"
  by (induction n arbitrary: g) (simp_all add: advance_0 advance_Suc rng_next_draws)

lemma rng_ok_advance: "rng_ok g \<Longrightarrow> rng_ok (advance n g)"
  by (induction n arbitrary: g) (simp_all add: advance_0 advance_Suc rng_next_ok)

lemma colour_index:
  assumes "rng_ok g"
  shows "js_index PRIMARY_COLORS \<lfloor>fst (rng_next g) * 3\<rfloor> = Some (PRIMARY_COLORS ! nat \<lfloor>fst (rng_next g) * 3\<rfloor>)"
    and "nat \<lfloor>fst (rng_next g) * 3\<rfloor> < 3"
proof -
  let ?r = "fst (rng_next g)"
  have r: "0 \<le> ?r \<and> ?r < 1" using assms by (rule rng_next_range)
  then have "0 \<le> ?r * 3 \<and> ?r * 3 < 3" by simp
  then have i: "0 \<le> \<lfloor>?r * 3\<rfloor> \<and> \<lfloor>?r * 3\<rfloor> < 3"
    by (simp add: floor_less_iff)
  then show "js_index PRIMARY_COLORS \<lfloor>?r * 3\<rfloor> = Some (PRIMARY_COLORS ! nat \<lfloor>?r * 3\<rfloor>)"
    by (simp add: js_index_def PRIMARY_COLORS_def)
  show "nat \<lfloor>?r * 3\<rfloor> < 3" using i by linarith
qed

lemma fillBlocks_trace:
  assumes "rng_ok rng"
  shows "\<exists>fills ks.
           ops (fst (fillBlocks ctx blocks c rng)) = ops ctx @ fills \<and>
           length fills = length blocks \<and> length ks = length blocks \<and>
           snd (fillBlocks ctx blocks c rng) = advance (sum_list ks) rng \<and>
           (\<forall>i < length blocks.
              block_fill_ok c (advance (sum_list (take i ks)) rng) (blocks ! i) (fills ! i) (ks ! i))"
  using assms
proof (induction blocks arbitrary: ctx rng)
  case Nil
  show ?case by (simp add: advance_0)
next
  case (Cons b bs)
  let ?g1 = "snd (rng_next rng)"
  let ?g2 = "snd (rng_next ?g1)"
  have g1: "rng_ok ?g1" using Cons.prems by (rule rng_next_ok)
  have g2: "rng_ok ?g2" using g1 by (rule rng_next_ok)
  show ?case
  proof (cases "fst (rng_next rng) < c")
    case True
    let ?i = "nat \<lfloor>fst (rng_next ?g1) * 3\<rfloor>"
    let ?fill = "FillRect (PRIMARY_COLORS ! ?i) b"
    let ?ctx = "fillRect b (set_fillStyle (Some (PRIMARY_COLORS ! ?i)) ctx)"
    have step: "fillBlocks ctx (b # bs) c rng = fillBlocks ?ctx bs c ?g2"
      using True colour_index(1) [OF g1]
      by (simp add: case_prod_beta Let_def PRIMARY_COLORS_def)
    have ops1: "ops ?ctx = ops ctx @ [?fill]"
      by (simp add: fillRect_def set_fillStyle_def)
    have first: "block_fill_ok c rng b ?fill 2"
      using True colour_index(2) [OF g1] by (simp add: block_fill_ok_def)
    obtain fills ks where
      t: "ops (fst (fillBlocks ?ctx bs c ?g2)) = ops ?ctx @ fills"
         "length fills = length bs" "length ks = length bs"
         "snd (fillBlocks ?ctx bs c ?g2) = advance (sum_list ks) ?g2"
         "\<forall>i < length bs.
            block_fill_ok c (advance (sum_list (take i ks)) ?g2) (bs ! i) (fills ! i) (ks ! i)"
      using Cons.IH [OF g2, of ?ctx] by blast
    have each: "block_fill_ok c (advance (sum_list (take i (2 # ks))) rng)
                  ((b # bs) ! i) ((?fill # fills) ! i) ((2 # ks) ! i)"
      if "i < length (b # bs)" for i
    proof (cases i)
      case 0
      then show ?thesis using first by (simp add: advance_0)
    next
      case (Suc j)
      then show ?thesis
        using that t(5) by (simp add: advance_Suc)
    qed
    have "ops (fst (fillBlocks ctx (b # bs) c rng)) = ops ctx @ (?fill # fills) \<and>
          length (?fill # fills) = length (b # bs) \<and> length (2 # ks) = length (b # bs) \<and>
          snd (fillBlocks ctx (b # bs) c rng) = advance (sum_list (2 # ks)) rng"
      unfolding step using t(1-4) ops1 by (simp add: advance_Suc)
    then show ?thesis using each by blast
  next
    case False
    let ?fill = "FillRect BACKGROUND_COLOR b"
    let ?ctx = "fillRect b (set_fillStyle (Some BACKGROUND_COLOR) ctx)"
    have step: "fillBlocks ctx (b # bs) c rng = fillBlocks ?ctx bs c ?g1"
      using False by (simp add: case_prod_beta Let_def)
    have ops1: "ops ?ctx = ops ctx @ [?fill]"
      by (simp add: fillRect_def set_fillStyle_def)
    have first: "block_fill_ok c rng b ?fill 1"
      using False by (simp add: block_fill_ok_def)
    obtain fills ks where
      t: "ops (fst (fillBlocks ?ctx bs c ?g1)) = ops ?ctx @ fills"
         "length fills = length bs" "length ks = length bs"
         "snd (fillBlocks ?ctx bs c ?g1) = advance (sum_list ks) ?g1"
         "\<forall>i < length bs.
            block_fill_ok c (advance (sum_list (take i ks)) ?g1) (bs ! i) (fills ! i) (ks ! i)"
      using Cons.IH [OF g1, of ?ctx] by blast
    have each: "block_fill_ok c (advance (sum_list (take i (1 # ks))) rng)
                  ((b # bs) ! i) ((?fill # fills) ! i) ((1 # ks) ! i)"
      if "i < length (b # bs)" for i
    proof (cases i)
      case 0
      then show ?thesis using first by (simp add: advance_0)
    next
      case (Suc j)
      then show ?thesis
        using that t(5) by (simp add: advance_Suc)
    qed
    have "ops (fst (fillBlocks ctx (b # bs) c rng)) = ops ctx @ (?fill # fills) \<and>
          length (?fill # fills) = length (b # bs) \<and> length (1 # ks) = length (b # bs) \<and>
          snd (fillBlocks ctx (b # bs) c rng) = advance (sum_list (1 # ks)) rng"
      unfolding step using t(1-4) ops1 by (simp add: advance_Suc)
    then show ?thesis using each by blast
  qed
qed

lemma strokeBlocks_ops:
  "ops (strokeBlocks ctx blocks) =
     ops ctx @ map (StrokeRect (strokeStyle ctx) (lineWidth ctx) (lineCap ctx) (lineJoin ctx)) blocks"
  by (induction blocks arbitrary: ctx) (simp_all add: strokeRect_def)

lemma eval_draw:
  "drawComposition
     \<lparr>fillStyle = ''#000000'', strokeStyle = ''#000000'', lineWidth = 1,
        lineCap = ''butt'', lineJoin = ''miter'', ops = []\<rparr>
     [\<lparr>x = 0, y = 0, width = 501, height = 600\<rparr>,
      \<lparr>x = 501, y = 0, width = 299, height = 600\<rparr>] 0.3 12 (new_SeededRandom 20) =
   (\<lparr>fillStyle = ''#FFFFFF'', strokeStyle = ''#000000'', lineWidth = 12,
       lineCap = ''butt'', lineJoin = ''miter'',
       ops =
         [FillRect ''#0000FF'' \<lparr>x = 0, y = 0, width = 501, height = 600\<rparr>,
          FillRect ''#FFFFFF'' \<lparr>x = 501, y = 0, width = 299, height = 600\<rparr>,
          StrokeRect ''#000000'' 12 ''butt'' ''miter''
            \<lparr>x = 0, y = 0, width = 501, height = 600\<rparr>,
          StrokeRect ''#000000'' 12 ''butt'' ''miter''
            \<lparr>x = 501, y = 0, width = 299, height = 600\<rparr>]\<rparr>,
    \<lparr>seed = 106691, draws = 3\<rparr>)"
  by (simp add: drawComposition_def new_SeededRandom_def rng_next_def js_rem_def Let_def
      PRIMARY_COLORS_def BACKGROUND_COLOR_def js_index_def set_fillStyle_def fillRect_def
      strokeRect_def)

text \<open>
  Claim C5. For every block list, colour chance and state a generator object can be in
  (\<open>rng_ok\<close>), the renderer fills
  the blocks in list order (the \<open>i\<close>-th fill is of the \<open>i\<close>-th block) before it strokes
  them. Block \<open>i\<close> is reached with the generator advanced by the draws of the blocks
  before it; it takes two draws when its first draw is below the colour chance, the second
  draw choosing the palette entry it is filled with, and one draw otherwise, when it is
  filled with the background colour. The strokes take no draw.
\<close>

theorem drawComposition_draws:
  assumes "rng_ok rng"
  shows "\<exists>fills ks.
           ops (fst (drawComposition ctx blocks colorChance lineWeight rng)) =
             ops ctx @ fills @ map (StrokeRect ''#000000'' lineWeight ''butt'' ''miter'') blocks \<and>
           length fills = length blocks \<and> length ks = length blocks \<and>
           (\<forall>i < length blocks.
              block_fill_ok colorChance (advance (sum_list (take i ks)) rng)
                (blocks ! i) (fills ! i) (ks ! i)) \<and>
           snd (drawComposition ctx blocks colorChance lineWeight rng) = advance (sum_list ks) rng \<and>
           draws (snd (drawComposition ctx blocks colorChance lineWeight rng)) =
             draws rng + sum_list ks"
proof -
  obtain fills ks where
    t: "ops (fst (fillBlocks ctx blocks colorChance rng)) = ops ctx @ fills"
       "length fills = length blocks" "length ks = length blocks"
       "snd (fillBlocks ctx blocks colorChance rng) = advance (sum_list ks) rng"
       "\<forall>i < length blocks.
          block_fill_ok colorChance (advance (sum_list (take i ks)) rng)
            (blocks ! i) (fills ! i) (ks ! i)"
    using fillBlocks_trace [OF assms, of ctx blocks colorChance] by blast
  have "ops (fst (drawComposition ctx blocks colorChance lineWeight rng)) =
          ops ctx @ fills @ map (StrokeRect ''#000000'' lineWeight ''butt'' ''miter'') blocks"
    using t(1) by (simp add: drawComposition_def case_prod_beta Let_def strokeBlocks_ops)
  moreover have "snd (drawComposition ctx blocks colorChance lineWeight rng) = advance (sum_list ks) rng"
    using t(4) by (simp add: drawComposition_def case_prod_beta Let_def)
  ultimately show ?thesis
    using t(2,3,5) by (auto simp: draws_advance)
qed

theorem drawComposition_draws_witness:
  "rng_ok (new_SeededRandom 20) \<and>
   ops (fst (drawComposition
     \<lparr>fillStyle = ''#000000'', strokeStyle = ''#000000'', lineWidth = 1,
        lineCap = ''butt'', lineJoin = ''miter'', ops = []\<rparr>
     [\<lparr>x = 0, y = 0, width = 501, height = 600\<rparr>,
      \<lparr>x = 501, y = 0, width = 299, height = 600\<rparr>] 0.3 12 (new_SeededRandom 20))) =
     [FillRect ''#0000FF'' \<lparr>x = 0, y = 0, width = 501, height = 600\<rparr>,
      FillRect ''#FFFFFF'' \<lparr>x = 501, y = 0, width = 299, height = 600\<rparr>,
      StrokeRect ''#000000'' 12 ''butt'' ''miter'' \<lparr>x = 0, y = 0, width = 501, height = 600\<rparr>,
      StrokeRect ''#000000'' 12 ''butt'' ''miter''
        \<lparr>x = 501, y = 0, width = 299, height = 600\<rparr>] \<and>
   block_fill_ok 0.3 (new_SeededRandom 20) \<lparr>x = 0, y = 0, width = 501, height = 600\<rparr>
     (FillRect ''#0000FF'' \<lparr>x = 0, y = 0, width = 501, height = 600\<rparr>) 2 \<and>
   block_fill_ok 0.3 (advance 2 (new_SeededRandom 20))
     \<lparr>x = 501, y = 0, width = 299, height = 600\<rparr>
     (FillRect ''#FFFFFF'' \<lparr>x = 501, y = 0, width = 299, height = 600\<rparr>) 1 \<and>
   draws (snd (drawComposition
     \<lparr>fillStyle = ''#000000'', strokeStyle = ''#000000'', lineWidth = 1,
        lineCap = ''butt'', lineJoin = ''miter'', ops = []\<rparr>
     [\<lparr>x = 0, y = 0, width = 501, height = 600\<rparr>,
      \<lparr>x = 501, y = 0, width = 299, height = 600\<rparr>] 0.3 12 (new_SeededRandom 20))) = 3"
proof -
  have a: "block_fill_ok 0.3 (new_SeededRandom 20) \<lparr>x = 0, y = 0, width = 501, height = 600\<rparr>
     (FillRect ''#0000FF'' \<lparr>x = 0, y = 0, width = 501, height = 600\<rparr>) 2"
    by (simp add: block_fill_ok_def new_SeededRandom_def rng_next_def js_rem_def Let_def
        PRIMARY_COLORS_def)
  have b: "block_fill_ok 0.3 (advance 2 (new_SeededRandom 20))
     \<lparr>x = 501, y = 0, width = 299, height = 600\<rparr>
     (FillRect ''#FFFFFF'' \<lparr>x = 501, y = 0, width = 299, height = 600\<rparr>) 1"
    by (simp add: block_fill_ok_def advance_def numeral_2_eq_2 new_SeededRandom_def rng_next_def
        js_rem_def Let_def BACKGROUND_COLOR_def)
  show ?thesis
    using drawComposition_draws [where rng = "new_SeededRandom 20" and colorChance = "0.3"
        and lineWeight = 12 and
        blocks = "[\<lparr>x = 0, y = 0, width = 501, height = 600\<rparr>,
                   \<lparr>x = 501, y = 0, width = 299, height = 600\<rparr>]" and
        ctx = "\<lparr>fillStyle = ''#000000'', strokeStyle = ''#000000'', lineWidth = 1,
                 lineCap = ''butt'', lineJoin = ''miter'', ops = []\<rparr>"] a b
    by (simp add: eval_draw new_SeededRandom_ok)
qed

section \<open>The scheduler tick and the health endpoint\<close>

text \<open>With a client connected, the tick broadcasts a generate event and then an audio event.\<close>

lemma generateAndBroadcast_busy:
  assumes "connectedClients st \<noteq> []"
  shows "\<exists>ts sd dp cc lw ts' fs.
           emitted (generateAndBroadcast env st) =
             emitted st @ [Generate ts sd dp cc lw GENERATION_INTERVAL, Audio ts' fs 5] \<and>
           connectedClients (generateAndBroadcast env st) = connectedClients st"
  using assms
  by (simp add: generateAndBroadcast_def Let_def Date_now_def generateRandomParams_def
      Math_random_def io_emit_def console_log_def getRandomFrequency_def case_prod_beta)

text \<open>
  Claim C6. A tick of the scheduler at which the map of connected clients is empty returns
  at once: the state of the server after the tick is the state before it. Nothing is
  broadcast, nothing is written to the console, neither the clock nor \<open>Math.random\<close> is
  read, and the map of clients and the timer of the scheduler are as they were.
\<close>

theorem generateAndBroadcast_idle:
  assumes "length (connectedClients st) = 0"
  shows "generateAndBroadcast env st = st"
  using assms by (simp add: generateAndBroadcast_def)

theorem generateAndBroadcast_idle_witness:
  "length (connectedClients \<lparr>connectedClients = [], generationInterval = Some 1,
       emitted = [Users 0], console = [], clockReads = 3, randomReads = 5\<rparr>) = 0 \<and>
   generateAndBroadcast \<lparr>dateNow = (\<lambda>n. 1700000000000 + int n), mathRandom = (\<lambda>n. 1 / 2)\<rparr>
     \<lparr>connectedClients = [], generationInterval = Some 1,
       emitted = [Users 0], console = [], clockReads = 3, randomReads = 5\<rparr> =
     \<lparr>connectedClients = [], generationInterval = Some 1,
       emitted = [Users 0], console = [], clockReads = 3, randomReads = 5\<rparr>"
  using generateAndBroadcast_idle [of
      "\<lparr>connectedClients = [], generationInterval = Some 1,
         emitted = [Users 0], console = [], clockReads = 3, randomReads = 5\<rparr>"
      "\<lparr>dateNow = (\<lambda>n. 1700000000000 + int n), mathRandom = (\<lambda>n. 1 / 2)\<rparr>"]
  by simp

text \<open>
  Claim C7, amended. The body of the response to \<open>GET /health\<close> is an object with exactly
  the three fields \<open>status\<close>, the string \<open>ok\<close>; \<open>clients\<close>, the number of connected
  clients; and \<open>uptime\<close> (not \<open>uptimeSeconds\<close>), the uptime of the process in seconds.
\<close>

theorem health_body:
  "map fst (health st uptime) = [''status'', ''clients'', ''uptime''] \<and>
   map_of (health st uptime) ''status'' = Some (JString ''ok'') \<and>
   map_of (health st uptime) ''clients'' = Some (JNumber (of_nat (length (connectedClients st)))) \<and>
   map_of (health st uptime) ''uptime'' = Some (JNumber uptime)"
  by (simp add: health_def)

text \<open>The body has no field \<open>uptimeSeconds\<close>: the claim as stated fails on every request.\<close>

theorem health_uptimeSeconds_counterexample:
  "map_of (health \<lparr>connectedClients = [], generationInterval = None,
       emitted = [], console = [], clockReads = 0, randomReads = 0\<rparr> (3 / 2)) ''uptimeSeconds''
     \<noteq> Some (JNumber (3 / 2)) \<and>
   map fst (health \<lparr>connectedClients = [], generationInterval = None,
       emitted = [], console = [], clockReads = 0, randomReads = 0\<rparr> (3 / 2))
     = [''status'', ''clients'', ''uptime'']"
  by (simp add: health_def)

section \<open>The clock offset of the client\<close>

lemma on_events_append: "on_events (evs @ evs') c = on_events evs' (on_events evs c)"
  by (induction evs arbitrary: c) auto

text \<open>
  Claim C8. On a sync event \<open>{serverTime, clientTime}\<close> received at local time \<open>now\<close>
  the client sets its clock offset to \<open>serverTime - (clientTime + rtt / 2)\<close> with
  \<open>rtt = now - clientTime\<close>. The new offset does not depend on the offset held before, and
  after any run of events that ends with the sync event the offset is this value: each
  response replaces the estimate, nothing is averaged.
\<close>

theorem sync_replaces_offset:
  "clockOffset (on_event now (Sync serverTime clientTime) c) =
     of_int serverTime - (of_int clientTime + (of_int now - of_int clientTime) / 2) \<and>
   clockOffset (on_event now (Sync serverTime clientTime) (c\<lparr>clockOffset := previous\<rparr>)) =
     clockOffset (on_event now (Sync serverTime clientTime) c) \<and>
   clockOffset (on_events (evs @ [(now, Sync serverTime clientTime)]) c) =
     of_int serverTime - (of_int clientTime + (of_int now - of_int clientTime) / 2)"
  by (simp add: on_events_append Let_def)

end
